theory Spec2Isabelle
  imports Main "HOL-Library.Word"
begin

section \<open>Preparation of a transaction's key operations (valinternal, tx\_ops\_preparation.go)\<close>

text \<open>
  The theory embeds \<^verbatim>\<open>prepareTxOps\<close>, \<^verbatim>\<open>applyTxRwset\<close>, \<^verbatim>\<open>applyKVWrite\<close>,
  \<^verbatim>\<open>applyMetadata\<close> and \<^verbatim>\<open>retrieveLatestState\<close> of
  \<^verbatim>\<open>core/ledger/kvledger/txmgmt/validator/valinternal/tx_ops_preparation.go\<close>.
  A Go byte slice is a list of bytes or the nil slice; a Go string is a sequence of bytes,
  which is what an Isabelle \<open>string\<close> is. A Go function returning \<open>(x, error)\<close> returns a
  sum, \<open>Inl\<close> carrying the error.
\<close>

subsection \<open>Bytes and strings\<close>

type_synonym byte = "8 word"

text \<open>A value of Go type \<^verbatim>\<open>[]byte\<close>: \<open>None\<close> is the nil slice, \<open>Some []\<close> the empty one.\<close>

type_synonym bytes = "byte list option"

text \<open>The byte sequence a slice holds; the nil slice holds none.\<close>

definition content :: "bytes \<Rightarrow> byte list" where
  "content b = (case b of None \<Rightarrow> [] | Some bs \<Rightarrow> bs)"

text \<open>Go's conversion \<^verbatim>\<open>string(b)\<close> of a byte slice: the string of the same bytes.\<close>

definition string_of_bytes :: "bytes \<Rightarrow> string" where
  "string_of_bytes b = map (\<lambda>w. char_of (unat w)) (content b)"

text \<open>Go's conversion \<^verbatim>\<open>[]byte(s)\<close> of a string: a fresh, non-nil slice of its bytes.\<close>

definition bytes_of_string :: "string \<Rightarrow> bytes" where
  "bytes_of_string s = Some (map (\<lambda>c. word_of_nat (of_char c)) s)"

subsection \<open>Errors\<close>

datatype error = StorageError string | EncodingError string

subsection \<open>The read-write set of a transaction\<close>

text \<open>
  The types of \<^verbatim>\<open>rwsetutil\<close> and \<^verbatim>\<open>kvrwset\<close>, with the fields the code reads. A field
  name used by two Go structs carries the struct's initials in the second one.
\<close>

record KVMetadataEntry =
  Name :: string
  EntryValue :: bytes

text \<open>A Go slice of entries; \<open>None\<close> is the nil slice.\<close>

type_synonym entries = "KVMetadataEntry list option"

record KVWrite =
  Key :: string
  IsDelete :: bool
  Value :: bytes

record KVMetadataWrite =
  MWKey :: string
  Entries :: entries

record KVWriteHash =
  KeyHash :: bytes
  HWIsDelete :: bool
  ValueHash :: bytes

record KVMetadataWriteHash =
  MWHKeyHash :: bytes
  MWHEntries :: entries

record KVRWSet =
  Writes :: "KVWrite list"
  MetadataWrites :: "KVMetadataWrite list"

record HashedRWSet =
  HashedWrites :: "KVWriteHash list"
  HMetadataWrites :: "KVMetadataWriteHash list"

record CollHashedRwSet =
  CollectionName :: string
  HashedRwSet :: HashedRWSet

record NsRwSet =
  NameSpace :: string
  KvRwSet :: KVRWSet
  CollHashedRwSets :: "CollHashedRwSet list"

record TxRwSet =
  NsRwSets :: "NsRwSet list"

subsection \<open>Versioned values and the two lookup sources\<close>

record Height =
  BlockNum :: "64 word"
  TxNum :: "64 word"

text \<open>\<^verbatim>\<open>statedb.VersionedValue\<close>; a nil pointer to one is \<open>None\<close>.\<close>

record VersionedValue =
  VValue :: bytes
  Metadata :: bytes
  Version :: "Height option"

text \<open>
  \<^verbatim>\<open>PubAndHashUpdates\<close>: each field stands for the \<^verbatim>\<open>Get\<close> method of the batch it
  holds, which returns a pointer and no error.
\<close>

record PubAndHashUpdates =
  PubUpdates :: "string \<Rightarrow> string \<Rightarrow> VersionedValue option"
  HashUpdates :: "string \<Rightarrow> string \<Rightarrow> string \<Rightarrow> VersionedValue option"

text \<open>\<^verbatim>\<open>privacyenabledstate.DB\<close>: the two read methods the code calls.\<close>

record DB =
  GetState :: "string \<Rightarrow> string \<Rightarrow> error + VersionedValue option"
  GetValueHash :: "string \<Rightarrow> string \<Rightarrow> bytes \<Rightarrow> error + VersionedValue option"

text \<open>
  The calls made to the lookup sources are recorded in the order they are made, so that
  "is consulted" and "is not consulted" are statements about the model.
\<close>

datatype lookup =
    PubGet string string
  | HashGet string string string
  | DBGetState string string
  | DBGetValueHash string string bytes

subsection \<open>Composite keys and key operations\<close>

record compositeKey =
  ns :: string
  coll :: string
  key :: string

text \<open>
  Modelled from the spec: the type \<^verbatim>\<open>keyOps\<close> and its methods are declared in a file of
  the package that is not among the sources. The spec gives a key operation a value
  (bytes, optional), a metadata (bytes, optional), a delete flag, and enough state to tell
  "value touched", "metadata touched" and "metadata cleared" apart.
\<close>

record keyOps =
  value' :: bytes
  metadata :: bytes
  deleted :: bool
  valueTouched :: bool
  metadataTouched :: bool
  metadataCleared :: bool

text \<open>
  \<^verbatim>\<open>txOps\<close> is a Go map from composite keys to pointers to key operations. Every key has
  an object of its own, so an assignment through the pointer is an update of the map at
  that key.
\<close>

type_synonym txOps = "compositeKey \<rightharpoonup> keyOps"

text \<open>Modelled from the spec: the entry a write starts from when the key has none yet.\<close>

definition freshKeyOps :: keyOps where
  "freshKeyOps = \<lparr>value' = None, metadata = None, deleted = False,
     valueTouched = False, metadataTouched = False, metadataCleared = False\<rparr>"

text \<open>
  Modelled from the spec: the entry of a key that a write works on, the one in the map or
  a fresh one; the methods below store it back at the key.
\<close>

definition entryOf :: "txOps \<Rightarrow> compositeKey \<Rightarrow> keyOps" where
  "entryOf txops k = (case txops k of None \<Rightarrow> freshKeyOps | Some ko \<Rightarrow> ko)"

text \<open>
  Modelled from the spec: \<^verbatim>\<open>upsert\<close> sets the value, clears the delete flag, marks
  "value touched" and leaves any prior metadata intact.
\<close>

definition upsert :: "txOps \<Rightarrow> compositeKey \<Rightarrow> bytes \<Rightarrow> txOps" where
  "upsert txops k v =
     txops(k \<mapsto> (entryOf txops k)\<lparr>value' := v, deleted := False, valueTouched := True\<rparr>)"

text \<open>
  Modelled from the spec: \<^verbatim>\<open>delete\<close> marks the entry a delete and discards its value
  and metadata: the entry starts afresh, as a delete.
\<close>

definition delete :: "txOps \<Rightarrow> compositeKey \<Rightarrow> txOps" where
  "delete txops k = txops(k \<mapsto> freshKeyOps\<lparr>deleted := True\<rparr>)"

text \<open>
  Modelled from the spec: \<^verbatim>\<open>metadataUpdate\<close> sets the metadata and marks "metadata
  touched".
\<close>

definition metadataUpdate :: "txOps \<Rightarrow> compositeKey \<Rightarrow> bytes \<Rightarrow> txOps" where
  "metadataUpdate txops k m =
     txops(k \<mapsto> (entryOf txops k)\<lparr>metadata := m, metadataTouched := True\<rparr>)"

text \<open>
  Modelled from the spec: \<^verbatim>\<open>metadataDelete\<close> records "metadata cleared": the metadata
  is known to be absent.
\<close>

definition metadataDelete :: "txOps \<Rightarrow> compositeKey \<Rightarrow> txOps" where
  "metadataDelete txops k =
     txops(k \<mapsto> (entryOf txops k)\<lparr>metadata := None, metadataCleared := True\<rparr>)"

text \<open>Modelled from the spec: the entry is a delete.\<close>

definition isDelete :: "keyOps \<Rightarrow> bool" where
  "isDelete ko = deleted ko"

text \<open>
  Modelled from the spec: the transaction itself set the value and settled the metadata
  (by an update, or by clearing it).
\<close>

definition isUpsertAndMetadataUpdate :: "keyOps \<Rightarrow> bool" where
  "isUpsertAndMetadataUpdate ko =
     (valueTouched ko \<and> (metadataTouched ko \<or> metadataCleared ko))"

text \<open>
  Modelled from the spec: value touched, metadata untouched by the transaction and not
  marked cleared.
\<close>

definition isOnlyUpsert :: "keyOps \<Rightarrow> bool" where
  "isOnlyUpsert ko =
     (valueTouched ko \<and> \<not> metadataTouched ko \<and> \<not> metadataCleared ko)"

subsection \<open>Applying the write set\<close>

text \<open>\<^verbatim>\<open>applyKVWrite\<close>, lines 94 to 100.\<close>

definition applyKVWrite :: "txOps \<Rightarrow> string \<Rightarrow> string \<Rightarrow> KVWrite \<Rightarrow> txOps" where
  "applyKVWrite txops n c kvWrite =
     (if IsDelete kvWrite
      then delete txops \<lparr>ns = n, coll = c, key = Key kvWrite\<rparr>
      else upsert txops \<lparr>ns = n, coll = c, key = Key kvWrite\<rparr> (Value kvWrite))"

text \<open>
  The metadata codec \<^verbatim>\<open>storageutil.SerializeMetadata\<close> is outside the package; the
  model takes it as a parameter.
\<close>

type_synonym codec = "entries \<Rightarrow> error + bytes"

text \<open>
  \<^verbatim>\<open>applyMetadata\<close>, lines 103 to 114: the map after the call and the error returned
  (\<open>None\<close> is the nil error).
\<close>

definition applyMetadata ::
  "codec \<Rightarrow> txOps \<Rightarrow> string \<Rightarrow> string \<Rightarrow> KVMetadataWrite \<Rightarrow> txOps \<times> error option" where
  "applyMetadata ser txops n c metadataWrite =
     (if Entries metadataWrite = None
      then (metadataDelete txops \<lparr>ns = n, coll = c, key = MWKey metadataWrite\<rparr>, None)
      else (case ser (Entries metadataWrite) of
              Inl err \<Rightarrow> (txops, Some err)
            | Inr metadataBytes \<Rightarrow>
                (metadataUpdate txops \<lparr>ns = n, coll = c, key = MWKey metadataWrite\<rparr>
                   metadataBytes, None)))"

text \<open>
  The loops of \<^verbatim>\<open>applyTxRwset\<close>, lines 58 to 89. The calls of \<^verbatim>\<open>applyMetadata\<close> at
  lines 64 and 81 are statements: the error they return is dropped, which is \<open>fst\<close> here.
\<close>

definition applyCollHashedRwSet :: "codec \<Rightarrow> string \<Rightarrow> CollHashedRwSet \<Rightarrow> txOps \<Rightarrow> txOps" where
  "applyCollHashedRwSet ser n collHashRWset txops =
     (let c = CollectionName collHashRWset;
          t1 = fold (\<lambda>hashedWrite t.
                  applyKVWrite t n c
                    \<lparr>Key = string_of_bytes (KeyHash hashedWrite),
                     IsDelete = HWIsDelete hashedWrite,
                     Value = ValueHash hashedWrite\<rparr>)
                 (HashedWrites (HashedRwSet collHashRWset)) txops
      in fold (\<lambda>metadataWrite t.
                  fst (applyMetadata ser t n c
                    \<lparr>MWKey = string_of_bytes (MWHKeyHash metadataWrite),
                     Entries = MWHEntries metadataWrite\<rparr>))
              (HMetadataWrites (HashedRwSet collHashRWset)) t1)"

definition applyNsRwSet :: "codec \<Rightarrow> NsRwSet \<Rightarrow> txOps \<Rightarrow> txOps" where
  "applyNsRwSet ser nsRWSet txops =
     (let n = NameSpace nsRWSet;
          t1 = fold (\<lambda>kvWrite t. applyKVWrite t n '''' kvWrite)
                 (Writes (KvRwSet nsRWSet)) txops;
          t2 = fold (\<lambda>kvMetadataWrite t. fst (applyMetadata ser t n '''' kvMetadataWrite))
                 (MetadataWrites (KvRwSet nsRWSet)) t1
      in fold (applyCollHashedRwSet ser n) (CollHashedRwSets nsRWSet) t2)"

text \<open>\<^verbatim>\<open>applyTxRwset\<close>, lines 57 to 91: it returns the nil error on every path.\<close>

definition applyTxRwset :: "codec \<Rightarrow> txOps \<Rightarrow> TxRwSet \<Rightarrow> txOps \<times> error option" where
  "applyTxRwset ser txops rwset = (fold (applyNsRwSet ser) (NsRwSets rwset) txops, None)"

subsection \<open>Retrieving the latest state\<close>

text \<open>
  \<^verbatim>\<open>retrieveLatestState\<close>, lines 121 to 138: the calls made and the result. The pointer
  returned by the preceding updates is tested against nil before the state database is
  called.
\<close>

definition retrieveLatestState ::
  "string \<Rightarrow> string \<Rightarrow> string \<Rightarrow> PubAndHashUpdates \<Rightarrow> DB
     \<Rightarrow> lookup list \<times> (error + VersionedValue option)" where
  "retrieveLatestState n c k precedingUpdates db =
     (if c = '''' then
        (case PubUpdates precedingUpdates n k of
           None \<Rightarrow> ([PubGet n k, DBGetState n k], GetState db n k)
         | Some vv \<Rightarrow> ([PubGet n k], Inr (Some vv)))
      else
        (case HashUpdates precedingUpdates n c k of
           None \<Rightarrow> ([HashGet n c k, DBGetValueHash n c (bytes_of_string k)],
                     GetValueHash db n c (bytes_of_string k))
         | Some vv \<Rightarrow> ([HashGet n c k], Inr (Some vv))))"

subsection \<open>Preparing the key operations\<close>

text \<open>
  The loop of \<^verbatim>\<open>prepareTxOps\<close>, lines 23 to 50. Go leaves the order of a \<^verbatim>\<open>range\<close>
  over a map open; the list of keys is the order one run takes. A key that is no
  longer in the map is not produced. The result is the calls made and either the error
  (Go: the nil map and the error) or the map (Go: the map and the nil error).
\<close>

fun resolveLoop ::
  "PubAndHashUpdates \<Rightarrow> DB \<Rightarrow> compositeKey list \<Rightarrow> txOps
     \<Rightarrow> lookup list \<times> (error + txOps)" where
  "resolveLoop precedingUpdates db [] txops = ([], Inr txops)"
| "resolveLoop precedingUpdates db (ck # cks) txops =
     (case txops ck of
        None \<Rightarrow> resolveLoop precedingUpdates db cks txops
      | Some keyop \<Rightarrow>
          if isDelete keyop \<or> isUpsertAndMetadataUpdate keyop
          then resolveLoop precedingUpdates db cks txops
          else
            (case retrieveLatestState (ns ck) (coll ck) (key ck) precedingUpdates db of
               (calls, Inl err) \<Rightarrow> (calls, Inl err)
             | (calls, Inr latestVal) \<Rightarrow>
                 (let txops' =
                      (if isOnlyUpsert keyop then
                         (case latestVal of
                            Some lv \<Rightarrow> txops(ck \<mapsto> keyop\<lparr>metadata := Metadata lv\<rparr>)
                          | None \<Rightarrow> txops)
                       else
                         (case latestVal of
                            Some lv \<Rightarrow> txops(ck \<mapsto> keyop\<lparr>value' := VValue lv\<rparr>)
                          | None \<Rightarrow> txops(ck := None)));
                      (log, res) = resolveLoop precedingUpdates db cks txops'
                  in (calls @ log, res))))"

text \<open>An order a \<^verbatim>\<open>range\<close> over the map can take: every key of the map, once.\<close>

definition rangeOrder :: "compositeKey list \<Rightarrow> txOps \<Rightarrow> bool" where
  "rangeOrder cks txops = (distinct cks \<and> set cks = dom txops)"

text \<open>
  \<^verbatim>\<open>prepareTxOps\<close>, lines 18 to 53. The map starts empty; the value returned by
  \<^verbatim>\<open>applyTxRwset\<close> at line 21 is dropped. The argument \<open>order\<close> gives, for the populated
  map, the order in which the \<^verbatim>\<open>range\<close> at line 23 visits its keys.
\<close>

definition prepareTxOps ::
  "codec \<Rightarrow> (txOps \<Rightarrow> compositeKey list) \<Rightarrow> TxRwSet \<Rightarrow> Height option
     \<Rightarrow> PubAndHashUpdates \<Rightarrow> DB \<Rightarrow> lookup list \<times> (error + txOps)" where
  "prepareTxOps ser order rwset txht precedingUpdates db =
     (let txops = fst (applyTxRwset ser Map.empty rwset)
      in resolveLoop precedingUpdates db (order txops) txops)"

subsection \<open>The loop body, entry by entry\<close>

text \<open>
  The definitions of this subsection describe one iteration of the loop on its own; the
  lemmas below show that the loop computes them at every key, in whatever order it runs.
\<close>

text \<open>The test of line 26 fails: the entry reaches the lookup of line 30.\<close>

definition needsLookup :: "keyOps \<Rightarrow> bool" where
  "needsLookup ko = (\<not> isDelete ko \<and> \<not> isUpsertAndMetadataUpdate ko)"

text \<open>The result and the calls of the lookup of line 30 for a composite key.\<close>

definition latestState ::
  "PubAndHashUpdates \<Rightarrow> DB \<Rightarrow> compositeKey \<Rightarrow> error + VersionedValue option" where
  "latestState pu db ck = snd (retrieveLatestState (ns ck) (coll ck) (key ck) pu db)"

definition callsFor :: "PubAndHashUpdates \<Rightarrow> DB \<Rightarrow> compositeKey \<Rightarrow> lookup list" where
  "callsFor pu db ck = fst (retrieveLatestState (ns ck) (coll ck) (key ck) pu db)"

text \<open>
  Lines 36 to 49 for one entry and the state found: the entry afterwards, \<open>None\<close> when
  line 48 removes it.
\<close>

definition mergeEntry :: "keyOps \<Rightarrow> VersionedValue option \<Rightarrow> keyOps option" where
  "mergeEntry ko latestVal =
     (if isOnlyUpsert ko then
        (case latestVal of Some lv \<Rightarrow> Some (ko\<lparr>metadata := Metadata lv\<rparr>) | None \<Rightarrow> Some ko)
      else
        (case latestVal of Some lv \<Rightarrow> Some (ko\<lparr>value' := VValue lv\<rparr>) | None \<Rightarrow> None))"

text \<open>Lines 26 to 49 for one entry: the error of line 32, or the entry afterwards.\<close>

definition resolveEntry ::
  "PubAndHashUpdates \<Rightarrow> DB \<Rightarrow> compositeKey \<Rightarrow> keyOps \<Rightarrow> error + keyOps option" where
  "resolveEntry pu db ck ko =
     (if needsLookup ko then
        (case latestState pu db ck of Inl e \<Rightarrow> Inl e | Inr lv \<Rightarrow> Inr (mergeEntry ko lv))
      else Inr (Some ko))"

text \<open>The error the iteration at a key ends the loop with, if it does.\<close>

definition failure :: "PubAndHashUpdates \<Rightarrow> DB \<Rightarrow> txOps \<Rightarrow> compositeKey \<Rightarrow> error option" where
  "failure pu db txops ck =
     (case txops ck of
        None \<Rightarrow> None
      | Some ko \<Rightarrow> (case resolveEntry pu db ck ko of Inl e \<Rightarrow> Some e | Inr r \<Rightarrow> None))"

text \<open>Every entry of a map resolved on its own.\<close>

definition resolveAll :: "PubAndHashUpdates \<Rightarrow> DB \<Rightarrow> txOps \<Rightarrow> txOps" where
  "resolveAll pu db txops ck =
     (case txops ck of
        None \<Rightarrow> None
      | Some ko \<Rightarrow> (case resolveEntry pu db ck ko of Inl e \<Rightarrow> None | Inr r \<Rightarrow> r))"

text \<open>The error of the first key, in the order of the run, whose iteration fails.\<close>

fun firstFailure ::
  "PubAndHashUpdates \<Rightarrow> DB \<Rightarrow> txOps \<Rightarrow> compositeKey list \<Rightarrow> error option" where
  "firstFailure pu db txops [] = None"
| "firstFailure pu db txops (ck # cks) =
     (case failure pu db txops ck of
        Some e \<Rightarrow> Some e
      | None \<Rightarrow> firstFailure pu db txops cks)"

text \<open>The keys a run visits: those up to the first failing one, that one included.\<close>

fun visited ::
  "PubAndHashUpdates \<Rightarrow> DB \<Rightarrow> txOps \<Rightarrow> compositeKey list \<Rightarrow> compositeKey list" where
  "visited pu db txops [] = []"
| "visited pu db txops (ck # cks) =
     ck # (case failure pu db txops ck of Some e \<Rightarrow> [] | None \<Rightarrow> visited pu db txops cks)"

definition lookedUp :: "txOps \<Rightarrow> compositeKey \<Rightarrow> bool" where
  "lookedUp txops ck = (case txops ck of None \<Rightarrow> False | Some ko \<Rightarrow> needsLookup ko)"

text \<open>
  The calls that concern a composite key: those of the public path when its collection
  is empty, those of the hashed path otherwise.
\<close>

definition lookupsOf :: "compositeKey \<Rightarrow> lookup set" where
  "lookupsOf ck =
     (if coll ck = ''''
      then {PubGet (ns ck) (key ck), DBGetState (ns ck) (key ck)}
      else {HashGet (ns ck) (coll ck) (key ck),
            DBGetValueHash (ns ck) (coll ck) (bytes_of_string (key ck))})"

text \<open>
  The map a Go caller receives: the nil map (\<open>None\<close>) beside an error, the map beside the
  nil error.
\<close>

definition returnedMap :: "error + txOps \<Rightarrow> txOps option" where
  "returnedMap r = (case r of Inl e \<Rightarrow> None | Inr m \<Rightarrow> Some m)"

text \<open>
  Modelled from the spec: the shape "metadata only" of an entry, metadata touched (set or
  cleared) by the transaction, value untouched, and not a delete.
\<close>

definition isOnlyMetadata :: "keyOps \<Rightarrow> bool" where
  "isOnlyMetadata ko =
     (\<not> deleted ko \<and> \<not> valueTouched ko \<and> (metadataTouched ko \<or> metadataCleared ko))"

text \<open>
  What holds of every entry the write set applier leaves in the map: some write made it,
  and value or metadata bytes are there only when the transaction set them.
\<close>

definition populated :: "keyOps \<Rightarrow> bool" where
  "populated ko =
     ((deleted ko \<or> valueTouched ko \<or> metadataTouched ko \<or> metadataCleared ko) \<and>
      (\<not> metadataTouched ko \<longrightarrow> metadata ko = None) \<and>
      (\<not> valueTouched ko \<longrightarrow> value' ko = None))"

definition allPopulated :: "txOps \<Rightarrow> bool" where
  "allPopulated txops = (\<forall>ck ko. txops ck = Some ko \<longrightarrow> populated ko)"

text \<open>
  A composite key of a private collection comes from a hashed write or a hashed metadata
  write of the write set: the key hash it was built from.
\<close>

definition hashedOrigin :: "TxRwSet \<Rightarrow> compositeKey \<Rightarrow> bytes \<Rightarrow> bool" where
  "hashedOrigin rwset ck kh =
     (\<exists>nsRWSet \<in> set (NsRwSets rwset). \<exists>cs \<in> set (CollHashedRwSets nsRWSet).
        ns ck = NameSpace nsRWSet \<and> coll ck = CollectionName cs \<and>
        key ck = string_of_bytes kh \<and>
        (kh \<in> KeyHash ` set (HashedWrites (HashedRwSet cs)) \<or>
         kh \<in> MWHKeyHash ` set (HMetadataWrites (HashedRwSet cs))))"

subsection \<open>What the lookup sources hold for a key\<close>

text \<open>
  Neither source holds a versioned value for the key: the preceding updates report
  absence and the state database returns the nil pointer and no error.
\<close>

definition absentIn :: "PubAndHashUpdates \<Rightarrow> DB \<Rightarrow> compositeKey \<Rightarrow> bool" where
  "absentIn pu db ck =
     (if coll ck = ''''
      then PubUpdates pu (ns ck) (key ck) = None \<and> GetState db (ns ck) (key ck) = Inr None
      else HashUpdates pu (ns ck) (coll ck) (key ck) = None \<and>
           GetValueHash db (ns ck) (coll ck) (bytes_of_string (key ck)) = Inr None)"

text \<open>
  A source holds the versioned value for the key: the preceding updates do, or they
  report absence and the state database returns it.
\<close>

definition foundIn :: "PubAndHashUpdates \<Rightarrow> DB \<Rightarrow> compositeKey \<Rightarrow> VersionedValue \<Rightarrow> bool" where
  "foundIn pu db ck vv =
     (if coll ck = ''''
      then PubUpdates pu (ns ck) (key ck) = Some vv \<or>
           (PubUpdates pu (ns ck) (key ck) = None \<and>
            GetState db (ns ck) (key ck) = Inr (Some vv))
      else HashUpdates pu (ns ck) (coll ck) (key ck) = Some vv \<or>
           (HashUpdates pu (ns ck) (coll ck) (key ck) = None \<and>
            GetValueHash db (ns ck) (coll ck) (bytes_of_string (key ck)) = Inr (Some vv)))"

text \<open>
  Every composite key of a private collection in a map comes from a hashed write or a
  hashed metadata write of the write set.
\<close>

definition privateKeysFrom :: "TxRwSet \<Rightarrow> txOps \<Rightarrow> bool" where
  "privateKeysFrom rwset t =
     (\<forall>ck \<in> dom t. coll ck \<noteq> '''' \<longrightarrow> (\<exists>kh. hashedOrigin rwset ck kh))"

subsection \<open>A worked transaction\<close>

text \<open>
  One transaction that covers the shapes an entry can take: in namespace \<open>ns1\<close>, a
  metadata write alone for the keys \<open>a\<close> and \<open>e\<close>, a value write alone for \<open>b\<close>, a
  delete of \<open>c\<close>, a value write and a metadata write for \<open>d\<close>; in the collection
  \<open>coll1\<close>, a hashed metadata write for the key hash \<open>0x48\<close> and a hashed value write
  for the key hash \<open>0x49\<close>. The codec serializes every list of entries to the same two
  bytes.
\<close>

definition exampleCodec :: codec where
  "exampleCodec es = Inr (Some [0x6D, 0x64])"

definition exampleEntries :: entries where
  "exampleEntries = Some [\<lparr>Name = ''owner'', EntryValue = Some [0x78]\<rparr>]"

definition exampleRwset :: TxRwSet where
  "exampleRwset =
     \<lparr>NsRwSets =
        [\<lparr>NameSpace = ''ns1'',
          KvRwSet =
            \<lparr>Writes =
               [\<lparr>Key = ''b'', IsDelete = False, Value = Some [0x76, 0x31]\<rparr>,
                \<lparr>Key = ''c'', IsDelete = True, Value = None\<rparr>,
                \<lparr>Key = ''d'', IsDelete = False, Value = Some [0x76, 0x32]\<rparr>],
             MetadataWrites =
               [\<lparr>MWKey = ''a'', Entries = exampleEntries\<rparr>,
                \<lparr>MWKey = ''d'', Entries = exampleEntries\<rparr>,
                \<lparr>MWKey = ''e'', Entries = exampleEntries\<rparr>]\<rparr>,
          CollHashedRwSets =
            [\<lparr>CollectionName = ''coll1'',
              HashedRwSet =
                \<lparr>HashedWrites =
                   [\<lparr>KeyHash = Some [0x49], HWIsDelete = False, ValueHash = Some [0x77]\<rparr>],
                 HMetadataWrites =
                   [\<lparr>MWHKeyHash = Some [0x48], MWHEntries = exampleEntries\<rparr>]\<rparr>\<rparr>]\<rparr>]\<rparr>"

text \<open>
  The preceding updates hold a versioned value with a nil value for \<open>e\<close>, one for
  \<open>c\<close>, and one for the key hash \<open>0x48\<close> of \<open>coll1\<close>. The state database holds a value
  with metadata for \<open>b\<close>, another value for \<open>e\<close>, and nothing else.
\<close>

definition examplePrecedingUpdates :: PubAndHashUpdates where
  "examplePrecedingUpdates =
     \<lparr>PubUpdates = (\<lambda>n k.
        if n = ''ns1'' \<and> k = ''e''
        then Some \<lparr>VValue = None, Metadata = None, Version = None\<rparr>
        else if n = ''ns1'' \<and> k = ''c''
        then Some \<lparr>VValue = Some [0x6F], Metadata = None, Version = None\<rparr>
        else None),
      HashUpdates = (\<lambda>n c k.
        if n = ''ns1'' \<and> c = ''coll1'' \<and> k = string_of_bytes (Some [0x48])
        then Some \<lparr>VValue = Some [0x76, 0x68], Metadata = None, Version = None\<rparr>
        else None)\<rparr>"

definition exampleDB :: DB where
  "exampleDB =
     \<lparr>GetState = (\<lambda>n k.
        if n = ''ns1'' \<and> k = ''b''
        then Inr (Some \<lparr>VValue = Some [0x76, 0x30], Metadata = Some [0x6F, 0x78],
                         Version = None\<rparr>)
        else if n = ''ns1'' \<and> k = ''e''
        then Inr (Some \<lparr>VValue = Some [0x76, 0x39], Metadata = None, Version = None\<rparr>)
        else Inr None),
      GetValueHash = (\<lambda>n c q. Inr None)\<rparr>"


definition exampleKey :: "string \<Rightarrow> compositeKey" where
  "exampleKey k = \<lparr>ns = ''ns1'', coll = '''', key = k\<rparr>"

definition exampleHashedKey :: "byte \<Rightarrow> compositeKey" where
  "exampleHashedKey w = \<lparr>ns = ''ns1'', coll = ''coll1'', key = string_of_bytes (Some [w])\<rparr>"

definition exampleOrder :: "txOps \<Rightarrow> compositeKey list" where
  "exampleOrder t =
     [exampleKey ''a'', exampleKey ''b'', exampleKey ''c'', exampleKey ''d'', exampleKey ''e'',
      exampleHashedKey 0x48, exampleHashedKey 0x49]"

definition exampleTxOps :: txOps where
  "exampleTxOps = fst (applyTxRwset exampleCodec Map.empty exampleRwset)"

definition exampleEntry :: "bytes \<Rightarrow> bytes \<Rightarrow> bool \<Rightarrow> bool \<Rightarrow> bool \<Rightarrow> keyOps" where
  "exampleEntry v m d vt mt =
     \<lparr>value' = v, metadata = m, deleted = d, valueTouched = vt, metadataTouched = mt,
      metadataCleared = False\<rparr>"

text \<open>
  The map and the calls expected of the run: \<open>a\<close> is dropped, \<open>b\<close> carries the
  stored metadata, \<open>e\<close> and the key hash \<open>0x48\<close> carry the value of the preceding
  updates, the key hash \<open>0x49\<close> stays without metadata.
\<close>

definition exampleResult :: txOps where
  "exampleResult =
     [exampleKey ''b'' \<mapsto> exampleEntry (Some [0x76, 0x31]) (Some [0x6F, 0x78]) False True False,
      exampleKey ''c'' \<mapsto> exampleEntry None None True False False,
      exampleKey ''d'' \<mapsto> exampleEntry (Some [0x76, 0x32]) (Some [0x6D, 0x64]) False True True,
      exampleKey ''e'' \<mapsto> exampleEntry None (Some [0x6D, 0x64]) False False True,
      exampleHashedKey 0x48 \<mapsto>
        exampleEntry (Some [0x76, 0x68]) (Some [0x6D, 0x64]) False False True,
      exampleHashedKey 0x49 \<mapsto> exampleEntry (Some [0x77]) None False True False]"

definition exampleLog :: "lookup list" where
  "exampleLog =
     [PubGet ''ns1'' ''a'', DBGetState ''ns1'' ''a'',
      PubGet ''ns1'' ''b'', DBGetState ''ns1'' ''b'',
      PubGet ''ns1'' ''e'',
      HashGet ''ns1'' ''coll1'' (string_of_bytes (Some [0x48])),
      HashGet ''ns1'' ''coll1'' (string_of_bytes (Some [0x49])),
      DBGetValueHash ''ns1'' ''coll1'' (Some [0x49])]"

section \<open>The loop computes the entry-wise resolution\<close>

lemma firstFailure_cong:
  "\<forall>ck \<in> set cks. t ck = t' ck \<Longrightarrow> firstFailure pu db t cks = firstFailure pu db t' cks"
  by (induction cks) (simp_all add: failure_def split: option.splits)

lemma resolveAll_cong: "t ck = t' ck \<Longrightarrow> resolveAll pu db t ck = resolveAll pu db t' ck"
  by (simp add: resolveAll_def)

lemma step_update:
  "txops ck = Some keyop \<Longrightarrow>
   (if isOnlyUpsert keyop then
      (case latestVal of
         Some lv \<Rightarrow> txops(ck \<mapsto> keyop\<lparr>metadata := Metadata lv\<rparr>)
       | None \<Rightarrow> txops)
    else
      (case latestVal of
         Some lv \<Rightarrow> txops(ck \<mapsto> keyop\<lparr>value' := VValue lv\<rparr>)
       | None \<Rightarrow> txops(ck := None)))
   = txops(ck := mergeEntry keyop latestVal)"
  by (auto simp: mergeEntry_def fun_eq_iff split: option.splits)

lemma resolveLoop_step:
  assumes "txops ck = Some keyop" and "needsLookup keyop"
    and "retrieveLatestState (ns ck) (coll ck) (key ck) pu db = (calls, Inr latestVal)"
  shows "resolveLoop pu db (ck # cks) txops =
           (calls @ fst (resolveLoop pu db cks (txops(ck := mergeEntry keyop latestVal))),
            snd (resolveLoop pu db cks (txops(ck := mergeEntry keyop latestVal))))"
  using assms
  by (simp add: needsLookup_def step_update Let_def split: prod.splits)

lemma resolveLoop_skip:
  assumes "\<not> lookedUp txops ck"
  shows "resolveLoop pu db (ck # cks) txops = resolveLoop pu db cks txops"
proof (cases "txops ck")
  case None
  then show ?thesis by simp
next
  case (Some keyop)
  with assms have "isDelete keyop \<or> isUpsertAndMetadataUpdate keyop"
    by (simp add: lookedUp_def needsLookup_def)
  with Some show ?thesis by simp
qed

lemma resolveLoop_fail:
  assumes "txops ck = Some keyop" and "needsLookup keyop"
    and "retrieveLatestState (ns ck) (coll ck) (key ck) pu db = (calls, Inl err)"
  shows "resolveLoop pu db (ck # cks) txops = (calls, Inl err)"
  using assms by (simp add: needsLookup_def)

declare resolveLoop.simps(2) [simp del]

lemma resolveLoop_snd:
  "distinct cks \<Longrightarrow>
   snd (resolveLoop pu db cks txops) =
     (case firstFailure pu db txops cks of
        Some e \<Rightarrow> Inl e
      | None \<Rightarrow> Inr (\<lambda>ck. if ck \<in> set cks then resolveAll pu db txops ck else txops ck))"
proof (induction cks arbitrary: txops)
  case Nil
  show ?case by simp
next
  case (Cons ck cks)
  from Cons.prems have nin: "ck \<notin> set cks" and dist: "distinct cks" by simp_all
  note IH = Cons.IH [OF dist]
  show ?case
  proof (cases "txops ck")
    case None
    have f: "failure pu db txops ck = None" and r: "resolveAll pu db txops ck = None"
      using None by (simp_all add: failure_def resolveAll_def)
    have "resolveLoop pu db (ck # cks) txops = resolveLoop pu db cks txops"
      using None by (intro resolveLoop_skip) (simp add: lookedUp_def)
    then show ?thesis
      using None by (simp add: IH f r fun_eq_iff split: option.splits)
  next
    case (Some keyop)
    show ?thesis
    proof (cases "needsLookup keyop")
      case False
      have f: "failure pu db txops ck = None"
        and r: "resolveAll pu db txops ck = Some keyop"
        using Some False by (simp_all add: failure_def resolveAll_def resolveEntry_def)
      have "resolveLoop pu db (ck # cks) txops = resolveLoop pu db cks txops"
        using Some False by (intro resolveLoop_skip) (simp add: lookedUp_def)
      then show ?thesis
        using Some by (simp add: IH f r fun_eq_iff split: option.splits)
    next
      case True
      obtain calls r where rls:
        "retrieveLatestState (ns ck) (coll ck) (key ck) pu db = (calls, r)"
        by (cases "retrieveLatestState (ns ck) (coll ck) (key ck) pu db")
      show ?thesis
      proof (cases r)
        case (Inl err)
        have f: "failure pu db txops ck = Some err"
          using Some True rls Inl by (simp add: failure_def resolveEntry_def latestState_def)
        have "retrieveLatestState (ns ck) (coll ck) (key ck) pu db = (calls, Inl err)"
          using rls Inl by simp
        from resolveLoop_fail [where txops = txops and ck = ck, OF Some True this] show ?thesis
          by (simp add: f)
      next
        case (Inr latestVal)
        define t' where "t' = txops(ck := mergeEntry keyop latestVal)"
        have fail_ck: "failure pu db txops ck = None"
          using Some True rls Inr by (simp add: failure_def resolveEntry_def latestState_def)
        have res_ck: "resolveAll pu db txops ck = mergeEntry keyop latestVal"
          using Some True rls Inr by (simp add: resolveAll_def resolveEntry_def latestState_def)
        have same: "\<forall>k \<in> set cks. t' k = txops k"
          using nin by (auto simp: t'_def)
        have ff: "firstFailure pu db t' cks = firstFailure pu db txops cks"
          using same by (rule firstFailure_cong)
        have ra: "\<And>k. k \<in> set cks \<Longrightarrow> resolveAll pu db t' k = resolveAll pu db txops k"
          using same by (intro resolveAll_cong) simp
        have "retrieveLatestState (ns ck) (coll ck) (key ck) pu db = (calls, Inr latestVal)"
          using rls Inr by simp
        from resolveLoop_step [where txops = txops and ck = ck, OF Some True this]
        have step: "snd (resolveLoop pu db (ck # cks) txops) = snd (resolveLoop pu db cks t')"
          by (simp add: t'_def)
        show ?thesis
          unfolding step IH [of t']
          using fail_ck res_ck ra nin
          by (simp add: ff t'_def [symmetric] fun_eq_iff split: option.splits)
             (auto simp: t'_def)
      qed
    qed
  qed
qed

lemma visited_cong:
  "\<forall>ck \<in> set cks. t ck = t' ck \<Longrightarrow> visited pu db t cks = visited pu db t' cks"
  by (induction cks) (simp_all add: failure_def split: option.splits)

lemma set_visited: "set (visited pu db t cks) \<subseteq> set cks"
  by (induction cks) (auto split: option.splits)

lemma filter_lookedUp_cong:
  "\<forall>ck \<in> set xs. t ck = t' ck \<Longrightarrow> filter (lookedUp t) xs = filter (lookedUp t') xs"
  by (induction xs) (simp_all add: lookedUp_def)

lemma resolveLoop_fst:
  "distinct cks \<Longrightarrow>
   fst (resolveLoop pu db cks txops) =
     concat (map (callsFor pu db) (filter (lookedUp txops) (visited pu db txops cks)))"
proof (induction cks arbitrary: txops)
  case Nil
  show ?case by simp
next
  case (Cons ck cks)
  from Cons.prems have nin: "ck \<notin> set cks" and dist: "distinct cks" by simp_all
  note IH = Cons.IH [OF dist]
  show ?case
  proof (cases "lookedUp txops ck")
    case False
    have f: "failure pu db txops ck = None"
      using False
      by (simp add: failure_def resolveEntry_def lookedUp_def split: option.splits)
    show ?thesis
      by (simp add: resolveLoop_skip [OF False] IH f False)
  next
    case l: True
    then obtain keyop where Some: "txops ck = Some keyop" and need: "needsLookup keyop"
      by (auto simp: lookedUp_def split: option.splits)
    obtain calls r where rls:
      "retrieveLatestState (ns ck) (coll ck) (key ck) pu db = (calls, r)"
      by (cases "retrieveLatestState (ns ck) (coll ck) (key ck) pu db")
    have c: "callsFor pu db ck = calls"
      using rls by (simp add: callsFor_def)
    show ?thesis
    proof (cases r)
      case (Inl err)
      have f: "failure pu db txops ck = Some err"
        using Some need rls Inl by (simp add: failure_def resolveEntry_def latestState_def)
      have "retrieveLatestState (ns ck) (coll ck) (key ck) pu db = (calls, Inl err)"
        using rls Inl by simp
      from resolveLoop_fail [where txops = txops and ck = ck, OF Some need this] show ?thesis
        by (simp add: f l c)
    next
      case (Inr latestVal)
      define t' where "t' = txops(ck := mergeEntry keyop latestVal)"
      have fail_ck: "failure pu db txops ck = None"
        using Some need rls Inr by (simp add: failure_def resolveEntry_def latestState_def)
      have same: "\<forall>k \<in> set cks. t' k = txops k"
        using nin by (auto simp: t'_def)
      have vis: "visited pu db t' cks = visited pu db txops cks"
        using same by (rule visited_cong)
      have fil: "filter (lookedUp t') (visited pu db txops cks)
                   = filter (lookedUp txops) (visited pu db txops cks)"
        using same set_visited [of pu db txops cks] by (intro filter_lookedUp_cong) auto
      have "retrieveLatestState (ns ck) (coll ck) (key ck) pu db = (calls, Inr latestVal)"
        using rls Inr by simp
      from resolveLoop_step [where txops = txops and ck = ck, OF Some need this]
      have step: "fst (resolveLoop pu db (ck # cks) txops)
                    = calls @ fst (resolveLoop pu db cks t')"
        by (simp add: t'_def)
      show ?thesis
        unfolding step IH [of t'] vis fil
        by (simp add: fail_ck l c)
    qed
  qed
qed

lemma resolveLoop_empty: "resolveLoop pu db cks Map.empty = ([], Inr Map.empty)"
  by (induction cks) (simp_all add: resolveLoop_skip lookedUp_def)

lemma firstFailure_None_iff:
  "firstFailure pu db t cks = None \<longleftrightarrow> (\<forall>ck \<in> set cks. failure pu db t ck = None)"
  by (induction cks) (auto split: option.splits)

lemma firstFailure_Some:
  "firstFailure pu db t cks = Some e \<Longrightarrow> \<exists>ck \<in> set cks. failure pu db t ck = Some e"
  by (induction cks) (auto split: option.splits)


lemma resolveAll_outside: "t ck = None \<Longrightarrow> resolveAll pu db t ck = None"
  by (simp add: resolveAll_def)

lemma resolveLoop_range:
  assumes "rangeOrder cks txops"
  shows "snd (resolveLoop pu db cks txops) =
           (case firstFailure pu db txops cks of
              Some e \<Rightarrow> Inl e
            | None \<Rightarrow> Inr (resolveAll pu db txops))"
proof -
  from assms have d: "distinct cks" and s: "set cks = dom txops"
    by (simp_all add: rangeOrder_def)
  have "(\<lambda>ck. if ck \<in> set cks then resolveAll pu db txops ck else txops ck)
          = resolveAll pu db txops"
    using s by (auto simp: fun_eq_iff resolveAll_outside domIff)
  then show ?thesis
    by (simp add: resolveLoop_snd [OF d] split: option.splits)
qed

lemma resolveLoop_success:
  assumes "rangeOrder cks txops" and "snd (resolveLoop pu db cks txops) = Inr m"
  shows "m = resolveAll pu db txops" and "\<forall>ck. failure pu db txops ck = None"
proof -
  from assms show "m = resolveAll pu db txops"
    by (simp add: resolveLoop_range split: option.splits)
  from assms have "firstFailure pu db txops cks = None"
    by (simp add: resolveLoop_range split: option.splits)
  then have "\<forall>ck \<in> dom txops. failure pu db txops ck = None"
    using assms(1) by (simp add: firstFailure_None_iff rangeOrder_def)
  then show "\<forall>ck. failure pu db txops ck = None"
    by (auto simp: failure_def split: option.splits)
qed

lemma resolveAll_entry:
  assumes "t ck = Some ko" and "failure pu db t ck = None"
  shows "needsLookup ko \<Longrightarrow> \<exists>lv. latestState pu db ck = Inr lv \<and>
            resolveAll pu db t ck = mergeEntry ko lv"
    and "\<not> needsLookup ko \<Longrightarrow> resolveAll pu db t ck = Some ko"
  using assms
  by (auto simp: resolveAll_def failure_def resolveEntry_def split: sum.splits)



lemma prepareTxOps_eq:
  "txops = fst (applyTxRwset ser Map.empty rwset) \<Longrightarrow>
   prepareTxOps ser order rwset txht pu db = resolveLoop pu db (order txops) txops"
  by (simp add: prepareTxOps_def Let_def)

section \<open>The lookup of one key\<close>

lemma latestState_absent: "latestState pu db ck = Inr None \<longleftrightarrow> absentIn pu db ck"
  by (auto simp: latestState_def retrieveLatestState_def absentIn_def split: option.splits)

lemma latestState_found: "latestState pu db ck = Inr (Some vv) \<longleftrightarrow> foundIn pu db ck vv"
  by (auto simp: latestState_def retrieveLatestState_def foundIn_def split: option.splits)

lemma callsFor_lookupsOf: "set (callsFor pu db ck) \<subseteq> lookupsOf ck"
  by (auto simp: callsFor_def retrieveLatestState_def lookupsOf_def split: option.splits)

lemma isOnlyMetadata_branch: "isOnlyMetadata ko \<Longrightarrow> needsLookup ko \<and> \<not> isOnlyUpsert ko"
  by (simp add: isOnlyMetadata_def needsLookup_def isOnlyUpsert_def isDelete_def
      isUpsertAndMetadataUpdate_def)

section \<open>Bytes to string and back\<close>

lemma bytes_roundtrip: "bytes_of_string (string_of_bytes b) = Some (content b)"
proof -
  have "word_of_nat (of_char (char_of (unat w))) = w" for w :: byte
  proof -
    have "unat w < 256" using unsigned_less [of w] by simp
    then show ?thesis by simp
  qed
  then show ?thesis
    by (simp add: bytes_of_string_def string_of_bytes_def comp_def)
qed

lemma string_roundtrip: "string_of_bytes (bytes_of_string s) = s"
proof -
  have "char_of (unat (word_of_nat (of_char c) :: byte)) = c" for c
  proof -
    have "(of_char c :: nat) < 256" by simp
    then have "unat (word_of_nat (of_char c) :: byte) = of_char c"
      by (simp add: unat_of_nat take_bit_nat_eq_self_iff)
    then show ?thesis by simp
  qed
  then show ?thesis
    by (simp add: bytes_of_string_def string_of_bytes_def comp_def content_def)
qed

lemma bytes_of_string_inj: "bytes_of_string s = bytes_of_string s' \<Longrightarrow> s = s'"
  using string_roundtrip by metis

lemma lookupsOf_disjoint: "ck \<noteq> ck' \<Longrightarrow> lookupsOf ck \<inter> lookupsOf ck' = {}"
  by (cases ck; cases ck') (auto simp: lookupsOf_def dest: bytes_of_string_inj split: if_splits)

section \<open>What the write set applier leaves in the map\<close>

lemma fold_invariant:
  assumes "\<And>x t. x \<in> set xs \<Longrightarrow> P t \<Longrightarrow> P (f x t)" and "P t"
  shows "P (fold f xs t)"
  using assms by (induction xs arbitrary: t) simp_all

lemma entryOf_populated:
  assumes "allPopulated t"
  shows "(\<not> metadataTouched (entryOf t k) \<longrightarrow> metadata (entryOf t k) = None) \<and>
         (\<not> valueTouched (entryOf t k) \<longrightarrow> value' (entryOf t k) = None)"
  using assms
  by (auto simp: entryOf_def allPopulated_def populated_def freshKeyOps_def split: option.splits)

lemma allPopulated_upd:
  "allPopulated t \<Longrightarrow> populated ko \<Longrightarrow> allPopulated (t(k \<mapsto> ko))"
  by (simp add: allPopulated_def)

lemma applyKVWrite_populated: "allPopulated t \<Longrightarrow> allPopulated (applyKVWrite t n c w)"
  using entryOf_populated [of t "\<lparr>ns = n, coll = c, key = Key w\<rparr>"]
  by (auto simp: applyKVWrite_def upsert_def delete_def intro!: allPopulated_upd)
     (simp_all add: populated_def freshKeyOps_def)

lemma applyMetadata_populated:
  "allPopulated t \<Longrightarrow> allPopulated (fst (applyMetadata ser t n c mw))"
  using entryOf_populated [of t "\<lparr>ns = n, coll = c, key = MWKey mw\<rparr>"]
  by (auto simp: applyMetadata_def metadataUpdate_def metadataDelete_def
      split: sum.splits intro!: allPopulated_upd)
     (simp_all add: populated_def)

lemma applyCollHashedRwSet_populated:
  "allPopulated t \<Longrightarrow> allPopulated (applyCollHashedRwSet ser n cs t)"
  unfolding applyCollHashedRwSet_def Let_def
  by (intro fold_invariant [where P = allPopulated] applyKVWrite_populated
      applyMetadata_populated)

lemma applyNsRwSet_populated: "allPopulated t \<Longrightarrow> allPopulated (applyNsRwSet ser nsRWSet t)"
  unfolding applyNsRwSet_def Let_def
  by (intro fold_invariant [where P = allPopulated] applyKVWrite_populated
      applyMetadata_populated applyCollHashedRwSet_populated)

lemma applyTxRwset_populated: "allPopulated (fst (applyTxRwset ser Map.empty rwset))"
  unfolding applyTxRwset_def fst_conv
  by (intro fold_invariant [where P = allPopulated] applyNsRwSet_populated)
     (simp_all add: allPopulated_def)

lemma dom_applyKVWrite:
  "dom (applyKVWrite t n c w) = insert \<lparr>ns = n, coll = c, key = Key w\<rparr> (dom t)"
  by (simp add: applyKVWrite_def upsert_def delete_def)

lemma dom_applyMetadata:
  "dom (fst (applyMetadata ser t n c mw)) \<subseteq> insert \<lparr>ns = n, coll = c, key = MWKey mw\<rparr> (dom t)"
  by (auto simp: applyMetadata_def metadataUpdate_def metadataDelete_def split: sum.splits)

lemma privateKeysFrom_insert:
  assumes "privateKeysFrom rwset t" and "dom t' \<subseteq> insert ck (dom t)"
    and "coll ck \<noteq> '''' \<longrightarrow> (\<exists>kh. hashedOrigin rwset ck kh)"
  shows "privateKeysFrom rwset t'"
  using assms unfolding privateKeysFrom_def by blast

lemma applyKVWrite_private:
  assumes "privateKeysFrom rwset t"
    and "c \<noteq> '''' \<longrightarrow> (\<exists>kh. hashedOrigin rwset \<lparr>ns = n, coll = c, key = Key w\<rparr> kh)"
  shows "privateKeysFrom rwset (applyKVWrite t n c w)"
proof (rule privateKeysFrom_insert [OF assms(1)])
  show "dom (applyKVWrite t n c w) \<subseteq> insert \<lparr>ns = n, coll = c, key = Key w\<rparr> (dom t)"
    by (simp add: dom_applyKVWrite)
  show "coll \<lparr>ns = n, coll = c, key = Key w\<rparr> \<noteq> '''' \<longrightarrow>
          (\<exists>kh. hashedOrigin rwset \<lparr>ns = n, coll = c, key = Key w\<rparr> kh)"
    using assms(2) by simp
qed

lemma applyMetadata_private:
  assumes "privateKeysFrom rwset t"
    and "c \<noteq> '''' \<longrightarrow> (\<exists>kh. hashedOrigin rwset \<lparr>ns = n, coll = c, key = MWKey mw\<rparr> kh)"
  shows "privateKeysFrom rwset (fst (applyMetadata ser t n c mw))"
proof (rule privateKeysFrom_insert [OF assms(1)])
  show "dom (fst (applyMetadata ser t n c mw))
          \<subseteq> insert \<lparr>ns = n, coll = c, key = MWKey mw\<rparr> (dom t)"
    by (rule dom_applyMetadata)
  show "coll \<lparr>ns = n, coll = c, key = MWKey mw\<rparr> \<noteq> '''' \<longrightarrow>
          (\<exists>kh. hashedOrigin rwset \<lparr>ns = n, coll = c, key = MWKey mw\<rparr> kh)"
    using assms(2) by simp
qed

lemma hashedOrigin_write:
  assumes "nsRWSet \<in> set (NsRwSets rwset)" and "cs \<in> set (CollHashedRwSets nsRWSet)"
    and "hw \<in> set (HashedWrites (HashedRwSet cs))"
  shows "hashedOrigin rwset
           \<lparr>ns = NameSpace nsRWSet, coll = CollectionName cs,
            key = string_of_bytes (KeyHash hw)\<rparr> (KeyHash hw)"
  unfolding hashedOrigin_def
  using assms by (intro bexI [of _ nsRWSet] bexI [of _ cs]) simp_all

lemma hashedOrigin_metadataWrite:
  assumes "nsRWSet \<in> set (NsRwSets rwset)" and "cs \<in> set (CollHashedRwSets nsRWSet)"
    and "mw \<in> set (HMetadataWrites (HashedRwSet cs))"
  shows "hashedOrigin rwset
           \<lparr>ns = NameSpace nsRWSet, coll = CollectionName cs,
            key = string_of_bytes (MWHKeyHash mw)\<rparr> (MWHKeyHash mw)"
  unfolding hashedOrigin_def
  using assms by (intro bexI [of _ nsRWSet] bexI [of _ cs]) simp_all

lemma applyCollHashedRwSet_private:
  assumes n: "nsRWSet \<in> set (NsRwSets rwset)" and c: "cs \<in> set (CollHashedRwSets nsRWSet)"
    and t: "privateKeysFrom rwset t"
  shows "privateKeysFrom rwset (applyCollHashedRwSet ser (NameSpace nsRWSet) cs t)"
proof -
  let ?f = "\<lambda>hashedWrite t.
              applyKVWrite t (NameSpace nsRWSet) (CollectionName cs)
                \<lparr>Key = string_of_bytes (KeyHash hashedWrite),
                 IsDelete = HWIsDelete hashedWrite,
                 Value = ValueHash hashedWrite\<rparr>"
  let ?g = "\<lambda>metadataWrite t.
              fst (applyMetadata ser t (NameSpace nsRWSet) (CollectionName cs)
                \<lparr>MWKey = string_of_bytes (MWHKeyHash metadataWrite),
                 Entries = MWHEntries metadataWrite\<rparr>)"
  have 1: "privateKeysFrom rwset (fold ?f (HashedWrites (HashedRwSet cs)) t)"
  proof (rule fold_invariant [where P = "privateKeysFrom rwset", OF _ t])
    fix hw t'
    assume "hw \<in> set (HashedWrites (HashedRwSet cs))" and "privateKeysFrom rwset t'"
    then show "privateKeysFrom rwset (?f hw t')"
      using hashedOrigin_write [OF n c] by (intro applyKVWrite_private) auto
  qed
  have "privateKeysFrom rwset
          (fold ?g (HMetadataWrites (HashedRwSet cs))
             (fold ?f (HashedWrites (HashedRwSet cs)) t))"
  proof (rule fold_invariant [where P = "privateKeysFrom rwset", OF _ 1])
    fix mw t'
    assume "mw \<in> set (HMetadataWrites (HashedRwSet cs))" and "privateKeysFrom rwset t'"
    then show "privateKeysFrom rwset (?g mw t')"
      using hashedOrigin_metadataWrite [OF n c] by (intro applyMetadata_private) auto
  qed
  then show ?thesis
    by (simp add: applyCollHashedRwSet_def Let_def)
qed

lemma applyNsRwSet_private:
  assumes n: "nsRWSet \<in> set (NsRwSets rwset)" and t: "privateKeysFrom rwset t"
  shows "privateKeysFrom rwset (applyNsRwSet ser nsRWSet t)"
proof -
  let ?f = "\<lambda>kvWrite t. applyKVWrite t (NameSpace nsRWSet) '''' kvWrite"
  let ?g = "\<lambda>kvMetadataWrite t.
              fst (applyMetadata ser t (NameSpace nsRWSet) '''' kvMetadataWrite)"
  let ?t1 = "fold ?f (Writes (KvRwSet nsRWSet)) t"
  let ?t2 = "fold ?g (MetadataWrites (KvRwSet nsRWSet)) ?t1"
  have 1: "privateKeysFrom rwset ?t1"
    by (rule fold_invariant [where P = "privateKeysFrom rwset", OF _ t])
       (simp add: applyKVWrite_private)
  have 2: "privateKeysFrom rwset ?t2"
    by (rule fold_invariant [where P = "privateKeysFrom rwset", OF _ 1])
       (simp add: applyMetadata_private)
  have "privateKeysFrom rwset
          (fold (applyCollHashedRwSet ser (NameSpace nsRWSet)) (CollHashedRwSets nsRWSet) ?t2)"
    by (rule fold_invariant [where P = "privateKeysFrom rwset", OF _ 2])
       (simp add: applyCollHashedRwSet_private [OF n])
  then show ?thesis
    by (simp add: applyNsRwSet_def Let_def)
qed

lemma applyTxRwset_private: "privateKeysFrom rwset (fst (applyTxRwset ser Map.empty rwset))"
proof -
  have 0: "privateKeysFrom rwset Map.empty"
    by (simp add: privateKeysFrom_def)
  have "privateKeysFrom rwset (fold (applyNsRwSet ser) (NsRwSets rwset) Map.empty)"
    by (rule fold_invariant [where P = "privateKeysFrom rwset", OF _ 0])
       (simp add: applyNsRwSet_private)
  then show ?thesis
    by (simp add: applyTxRwset_def)
qed

section \<open>The worked transaction, evaluated\<close>

lemmas example_defs = exampleCodec_def exampleEntries_def exampleRwset_def
  examplePrecedingUpdates_def exampleDB_def exampleKey_def exampleHashedKey_def
  exampleOrder_def

lemmas apply_defs = applyTxRwset_def applyNsRwSet_def applyCollHashedRwSet_def
  applyKVWrite_def applyMetadata_def upsert_def delete_def metadataUpdate_def
  metadataDelete_def entryOf_def freshKeyOps_def Let_def

lemmas resolve_defs = retrieveLatestState_def isDelete_def isUpsertAndMetadataUpdate_def
  isOnlyUpsert_def bytes_of_string_def string_of_bytes_def content_def

lemmas example_key_defs = exampleKey_def exampleHashedKey_def exampleEntry_def
  string_of_bytes_def content_def

lemma exampleTxOps_eq:
  "exampleTxOps =
     [exampleKey ''a'' \<mapsto> exampleEntry None (Some [0x6D, 0x64]) False False True,
      exampleKey ''b'' \<mapsto> exampleEntry (Some [0x76, 0x31]) None False True False,
      exampleKey ''c'' \<mapsto> exampleEntry None None True False False,
      exampleKey ''d'' \<mapsto> exampleEntry (Some [0x76, 0x32]) (Some [0x6D, 0x64]) False True True,
      exampleKey ''e'' \<mapsto> exampleEntry None (Some [0x6D, 0x64]) False False True,
      exampleHashedKey 0x48 \<mapsto> exampleEntry None (Some [0x6D, 0x64]) False False True,
      exampleHashedKey 0x49 \<mapsto> exampleEntry (Some [0x77]) None False True False]"
  by (auto simp: exampleTxOps_def example_defs apply_defs exampleEntry_def fun_eq_iff
      string_of_bytes_def content_def)

lemma example_rangeOrder: "rangeOrder (exampleOrder exampleTxOps) exampleTxOps"
  unfolding exampleTxOps_eq
  by (auto simp: rangeOrder_def exampleOrder_def exampleKey_def exampleHashedKey_def
      string_of_bytes_def content_def)

lemma example_entries:
  "exampleTxOps (exampleKey ''a'') = Some (exampleEntry None (Some [0x6D, 0x64]) False False True)"
  "exampleTxOps (exampleKey ''b'') = Some (exampleEntry (Some [0x76, 0x31]) None False True False)"
  "exampleTxOps (exampleKey ''c'') = Some (exampleEntry None None True False False)"
  "exampleTxOps (exampleKey ''d'') =
     Some (exampleEntry (Some [0x76, 0x32]) (Some [0x6D, 0x64]) False True True)"
  "exampleTxOps (exampleKey ''e'') = Some (exampleEntry None (Some [0x6D, 0x64]) False False True)"
  "exampleTxOps (exampleHashedKey 0x48) =
     Some (exampleEntry None (Some [0x6D, 0x64]) False False True)"
  "exampleTxOps (exampleHashedKey 0x49) = Some (exampleEntry (Some [0x77]) None False True False)"
  unfolding exampleTxOps_eq by (simp_all add: example_key_defs)

lemma example_results:
  "exampleResult (exampleKey ''a'') = None"
  "exampleResult (exampleKey ''b'') =
     Some (exampleEntry (Some [0x76, 0x31]) (Some [0x6F, 0x78]) False True False)"
  "exampleResult (exampleKey ''c'') = Some (exampleEntry None None True False False)"
  "exampleResult (exampleKey ''d'') =
     Some (exampleEntry (Some [0x76, 0x32]) (Some [0x6D, 0x64]) False True True)"
  "exampleResult (exampleKey ''e'') = Some (exampleEntry None (Some [0x6D, 0x64]) False False True)"
  "exampleResult (exampleHashedKey 0x48) =
     Some (exampleEntry (Some [0x76, 0x68]) (Some [0x6D, 0x64]) False False True)"
  "exampleResult (exampleHashedKey 0x49) = Some (exampleEntry (Some [0x77]) None False True False)"
  unfolding exampleResult_def by (simp_all add: example_key_defs)

lemma example_prepare:
  "prepareTxOps exampleCodec exampleOrder exampleRwset None examplePrecedingUpdates exampleDB
     = resolveLoop examplePrecedingUpdates exampleDB (exampleOrder exampleTxOps) exampleTxOps"
  by (simp add: prepareTxOps_def exampleTxOps_def Let_def)

lemma example_log:
  "fst (prepareTxOps exampleCodec exampleOrder exampleRwset None examplePrecedingUpdates
     exampleDB) = exampleLog"
  unfolding example_prepare exampleTxOps_eq
  by (simp add: resolveLoop.simps exampleOrder_def exampleKey_def exampleHashedKey_def
      exampleEntry_def examplePrecedingUpdates_def exampleDB_def exampleLog_def resolve_defs)

lemma example_result:
  "snd (prepareTxOps exampleCodec exampleOrder exampleRwset None examplePrecedingUpdates
     exampleDB) = Inr exampleResult"
  unfolding example_prepare exampleTxOps_eq
  by (simp add: resolveLoop.simps exampleOrder_def exampleKey_def exampleHashedKey_def
      exampleEntry_def examplePrecedingUpdates_def exampleDB_def exampleResult_def resolve_defs)
     (auto simp: fun_eq_iff)


section \<open>The claims\<close>

text \<open>
  C1. The claim: when the entries of a metadata write fail to serialize, prepareTxOps
  fails with that encoding error and returns no map. The code does not do so: the error
  \<^verbatim>\<open>applyMetadata\<close> returns is dropped at lines 64 and 81, and so is the value of
  \<^verbatim>\<open>applyTxRwset\<close> at line 21. For a write set of one public metadata write whose
  entries the codec rejects, with any lookup sources and any order, prepareTxOps makes no
  lookup and returns the empty map beside the nil error.
\<close>

theorem prepareTxOps_drops_encoding_error:
  "prepareTxOps (\<lambda>es. Inl (EncodingError ''entries rejected'')) order
     \<lparr>NsRwSets =
        [\<lparr>NameSpace = ''ns1'',
          KvRwSet = \<lparr>Writes = [],
                     MetadataWrites =
                       [\<lparr>MWKey = ''a'',
                         Entries = Some [\<lparr>Name = ''owner'', EntryValue = None\<rparr>]\<rparr>]\<rparr>,
          CollHashedRwSets = []\<rparr>]\<rparr>
     txht pu db
   = ([], Inr Map.empty)"
  by (simp add: prepareTxOps_def applyTxRwset_def applyNsRwSet_def applyMetadata_def
      resolveLoop_empty)



text \<open>
  C3. A metadata-only entry (metadata touched by the transaction, value untouched, not a
  delete): when neither the preceding updates nor the state database hold a versioned
  value for its key, the map returned has no entry for the key; when a versioned value is
  found, the entry is kept with the value of that versioned value and is otherwise as
  populated. This holds for every order of the loop.
\<close>

theorem metadata_only_entry_dropped_or_completed:
  assumes "txops = fst (applyTxRwset ser Map.empty rwset)"
    and "rangeOrder (order txops) txops"
    and "txops ck = Some ko" and "isOnlyMetadata ko"
    and "snd (prepareTxOps ser order rwset txht pu db) = Inr m"
  shows "(absentIn pu db ck \<longrightarrow> m ck = None) \<and>
         (\<forall>vv. foundIn pu db ck vv \<longrightarrow> m ck = Some (ko\<lparr>value' := VValue vv\<rparr>))"
proof -
  from assms(5) have "snd (resolveLoop pu db (order txops) txops) = Inr m"
    by (simp add: prepareTxOps_eq [OF assms(1)])
  from resolveLoop_success [OF assms(2) this]
  have m: "m = resolveAll pu db txops" and nf: "failure pu db txops ck = None"
    by simp_all
  from isOnlyMetadata_branch [OF assms(4)]
  have need: "needsLookup ko" and nu: "\<not> isOnlyUpsert ko" by simp_all
  from resolveAll_entry(1) [OF assms(3) nf need]
  obtain lv where lv: "latestState pu db ck = Inr lv"
    and r: "m ck = mergeEntry ko lv" by (auto simp: m)
  show ?thesis
    using lv r nu
    by (auto simp: latestState_absent [symmetric] latestState_found [symmetric] mergeEntry_def)
qed

theorem metadata_only_entry_dropped_or_completed_witness:
  "rangeOrder (exampleOrder exampleTxOps) exampleTxOps \<and>
   exampleTxOps (exampleKey ''a'') =
     Some (exampleEntry None (Some [0x6D, 0x64]) False False True) \<and>
   isOnlyMetadata (exampleEntry None (Some [0x6D, 0x64]) False False True) \<and>
   snd (prepareTxOps exampleCodec exampleOrder exampleRwset None examplePrecedingUpdates
     exampleDB) = Inr exampleResult \<and>
   absentIn examplePrecedingUpdates exampleDB (exampleKey ''a'') \<and>
   exampleResult (exampleKey ''a'') = None \<and>
   foundIn examplePrecedingUpdates exampleDB (exampleHashedKey 0x48)
     \<lparr>VValue = Some [0x76, 0x68], Metadata = None, Version = None\<rparr> \<and>
   exampleResult (exampleHashedKey 0x48) =
     Some (exampleEntry (Some [0x76, 0x68]) (Some [0x6D, 0x64]) False False True)"
proof -
  have shape: "isOnlyMetadata (exampleEntry None (Some [0x6D, 0x64]) False False True)"
    by (simp add: isOnlyMetadata_def exampleEntry_def)
  have absent: "absentIn examplePrecedingUpdates exampleDB (exampleKey ''a'')"
    by (simp add: absentIn_def examplePrecedingUpdates_def exampleDB_def exampleKey_def)
  have found: "foundIn examplePrecedingUpdates exampleDB (exampleHashedKey 0x48)
     \<lparr>VValue = Some [0x76, 0x68], Metadata = None, Version = None\<rparr>"
    by (simp add: foundIn_def examplePrecedingUpdates_def exampleHashedKey_def)
  from metadata_only_entry_dropped_or_completed [where txops = exampleTxOps and order = exampleOrder and ck = "exampleKey ''a''",
      OF exampleTxOps_def example_rangeOrder example_entries(1) shape example_result] absent
  have a: "exampleResult (exampleKey ''a'') = None"
    by simp
  from metadata_only_entry_dropped_or_completed [where txops = exampleTxOps and order = exampleOrder and ck = "exampleHashedKey 0x48",
      OF exampleTxOps_def example_rangeOrder example_entries(6) shape example_result] found
  have h: "exampleResult (exampleHashedKey 0x48) =
     Some (exampleEntry (Some [0x76, 0x68]) (Some [0x6D, 0x64]) False False True)"
    by (simp add: exampleEntry_def)
  from example_rangeOrder example_entries(1) shape example_result absent a found h
  show ?thesis by simp
qed



text \<open>
  C5. A value-only entry (value touched by the transaction, metadata untouched and not
  marked cleared, not a delete): when a versioned value is found for its key, the entry
  returned carries the metadata of that versioned value; when none is found, the entry is
  returned as populated, which is without metadata. In both cases the entry is in the
  map returned and its value is the one the transaction wrote.
\<close>

theorem value_only_entry_adopts_metadata:
  assumes "txops = fst (applyTxRwset ser Map.empty rwset)"
    and "rangeOrder (order txops) txops"
    and "txops ck = Some ko" and "\<not> isDelete ko" and "isOnlyUpsert ko"
    and "snd (prepareTxOps ser order rwset txht pu db) = Inr m"
  shows "(\<forall>vv. foundIn pu db ck vv \<longrightarrow> m ck = Some (ko\<lparr>metadata := Metadata vv\<rparr>)) \<and>
         (absentIn pu db ck \<longrightarrow> m ck = Some ko \<and> metadata ko = None) \<and>
         (\<exists>ko'. m ck = Some ko' \<and> value' ko' = value' ko)"
proof -
  from assms(6) have "snd (resolveLoop pu db (order txops) txops) = Inr m"
    by (simp add: prepareTxOps_eq [OF assms(1)])
  from resolveLoop_success [OF assms(2) this]
  have m: "m = resolveAll pu db txops" and nf: "failure pu db txops ck = None"
    by simp_all
  have need: "needsLookup ko"
    using assms(4,5) by (auto simp: needsLookup_def isOnlyUpsert_def isUpsertAndMetadataUpdate_def)
  from resolveAll_entry(1) [OF assms(3) nf need]
  obtain lv where lv: "latestState pu db ck = Inr lv"
    and r: "m ck = mergeEntry ko lv" by (auto simp: m)
  have "populated ko"
    using applyTxRwset_populated [of ser rwset] assms(1,3) by (auto simp: allPopulated_def)
  then have md: "metadata ko = None"
    using assms(5) by (simp add: populated_def isOnlyUpsert_def)
  show ?thesis
    using lv r assms(5) md
    by (auto simp: latestState_absent [symmetric] latestState_found [symmetric] mergeEntry_def
        split: option.splits)
qed

theorem value_only_entry_adopts_metadata_witness:
  "rangeOrder (exampleOrder exampleTxOps) exampleTxOps \<and>
   exampleTxOps (exampleKey ''b'') =
     Some (exampleEntry (Some [0x76, 0x31]) None False True False) \<and>
   \<not> isDelete (exampleEntry (Some [0x76, 0x31]) None False True False) \<and>
   isOnlyUpsert (exampleEntry (Some [0x76, 0x31]) None False True False) \<and>
   snd (prepareTxOps exampleCodec exampleOrder exampleRwset None examplePrecedingUpdates
     exampleDB) = Inr exampleResult \<and>
   foundIn examplePrecedingUpdates exampleDB (exampleKey ''b'')
     \<lparr>VValue = Some [0x76, 0x30], Metadata = Some [0x6F, 0x78], Version = None\<rparr> \<and>
   exampleResult (exampleKey ''b'') =
     Some (exampleEntry (Some [0x76, 0x31]) (Some [0x6F, 0x78]) False True False) \<and>
   exampleTxOps (exampleHashedKey 0x49) =
     Some (exampleEntry (Some [0x77]) None False True False) \<and>
   absentIn examplePrecedingUpdates exampleDB (exampleHashedKey 0x49) \<and>
   exampleResult (exampleHashedKey 0x49) =
     Some (exampleEntry (Some [0x77]) None False True False)"
proof -
  have shape: "\<not> isDelete (exampleEntry v None False True False)"
    "isOnlyUpsert (exampleEntry v None False True False)" for v
    by (simp_all add: isDelete_def isOnlyUpsert_def exampleEntry_def)
  have found: "foundIn examplePrecedingUpdates exampleDB (exampleKey ''b'')
     \<lparr>VValue = Some [0x76, 0x30], Metadata = Some [0x6F, 0x78], Version = None\<rparr>"
    by (simp add: foundIn_def examplePrecedingUpdates_def exampleDB_def exampleKey_def)
  have absent: "absentIn examplePrecedingUpdates exampleDB (exampleHashedKey 0x49)"
    by (simp add: absentIn_def examplePrecedingUpdates_def exampleDB_def exampleHashedKey_def
        string_of_bytes_def content_def)
  from value_only_entry_adopts_metadata [where txops = exampleTxOps and order = exampleOrder and ck = "exampleKey ''b''",
      OF exampleTxOps_def example_rangeOrder example_entries(2) shape example_result] found
  have b: "exampleResult (exampleKey ''b'') =
     Some (exampleEntry (Some [0x76, 0x31]) (Some [0x6F, 0x78]) False True False)"
    by (simp add: exampleEntry_def)
  from value_only_entry_adopts_metadata [where txops = exampleTxOps and order = exampleOrder and ck = "exampleHashedKey 0x49",
      OF exampleTxOps_def example_rangeOrder example_entries(7) shape example_result] absent
  have i: "exampleResult (exampleHashedKey 0x49) =
     Some (exampleEntry (Some [0x77]) None False True False)"
    by simp
  from example_rangeOrder example_entries(2,7) shape example_result found absent b i
  show ?thesis by simp
qed

text \<open>
  C6. For an entry that is a delete, and for an entry whose value and metadata the
  transaction itself set, the run makes none of the calls that concern the entry's key,
  whatever the lookup sources hold, and a map returned holds the entry exactly as
  populated.
\<close>

theorem delete_and_complete_entries_skip_lookup:
  assumes "txops = fst (applyTxRwset ser Map.empty rwset)"
    and "rangeOrder (order txops) txops"
    and "txops ck = Some ko" and "isDelete ko \<or> isUpsertAndMetadataUpdate ko"
  shows "set (fst (prepareTxOps ser order rwset txht pu db)) \<inter> lookupsOf ck = {} \<and>
         (\<forall>m. snd (prepareTxOps ser order rwset txht pu db) = Inr m \<longrightarrow> m ck = Some ko)"
proof -
  have nl: "\<not> needsLookup ko"
    using assms(4) by (auto simp: needsLookup_def)
  have d: "distinct (order txops)"
    using assms(2) by (simp add: rangeOrder_def)
  have "x \<notin> lookupsOf ck" if "x \<in> set (fst (prepareTxOps ser order rwset txht pu db))" for x
  proof -
    from that have "x \<in> set (concat (map (callsFor pu db)
        (filter (lookedUp txops) (visited pu db txops (order txops)))))"
      by (simp add: prepareTxOps_eq [OF assms(1)] resolveLoop_fst [OF d])
    then obtain ck' where "lookedUp txops ck'" and x: "x \<in> set (callsFor pu db ck')"
      by auto
    then have "ck' \<noteq> ck"
      using assms(3) nl by (auto simp: lookedUp_def)
    then show ?thesis
      using x callsFor_lookupsOf [of pu db ck'] lookupsOf_disjoint [of ck ck'] by auto
  qed
  moreover have "m ck = Some ko"
    if "snd (prepareTxOps ser order rwset txht pu db) = Inr m" for m
  proof -
    from that have "snd (resolveLoop pu db (order txops) txops) = Inr m"
      by (simp add: prepareTxOps_eq [OF assms(1)])
    from resolveLoop_success [OF assms(2) this]
    have m: "m = resolveAll pu db txops" and nf: "failure pu db txops ck = None"
      by simp_all
    show ?thesis
      using resolveAll_entry(2) [OF assms(3) nf nl] by (simp add: m)
  qed
  ultimately show ?thesis by auto
qed

theorem delete_and_complete_entries_skip_lookup_witness:
  "rangeOrder (exampleOrder exampleTxOps) exampleTxOps \<and>
   exampleTxOps (exampleKey ''c'') = Some (exampleEntry None None True False False) \<and>
   isDelete (exampleEntry None None True False False) \<and>
   set (fst (prepareTxOps exampleCodec exampleOrder exampleRwset None examplePrecedingUpdates
     exampleDB)) \<inter> lookupsOf (exampleKey ''c'') = {} \<and>
   snd (prepareTxOps exampleCodec exampleOrder exampleRwset None examplePrecedingUpdates
     exampleDB) = Inr exampleResult \<and>
   exampleResult (exampleKey ''c'') = Some (exampleEntry None None True False False) \<and>
   exampleTxOps (exampleKey ''d'') =
     Some (exampleEntry (Some [0x76, 0x32]) (Some [0x6D, 0x64]) False True True) \<and>
   isUpsertAndMetadataUpdate
     (exampleEntry (Some [0x76, 0x32]) (Some [0x6D, 0x64]) False True True) \<and>
   set (fst (prepareTxOps exampleCodec exampleOrder exampleRwset None examplePrecedingUpdates
     exampleDB)) \<inter> lookupsOf (exampleKey ''d'') = {} \<and>
   exampleResult (exampleKey ''d'') =
     Some (exampleEntry (Some [0x76, 0x32]) (Some [0x6D, 0x64]) False True True)"
proof -
  have del: "isDelete (exampleEntry None None True False False)"
    by (simp add: isDelete_def exampleEntry_def)
  have both: "isUpsertAndMetadataUpdate
     (exampleEntry (Some [0x76, 0x32]) (Some [0x6D, 0x64]) False True True)"
    by (simp add: isUpsertAndMetadataUpdate_def exampleEntry_def)
  from del have del': "isDelete (exampleEntry None None True False False) \<or>
     isUpsertAndMetadataUpdate (exampleEntry None None True False False)" ..
  from both have both': "isDelete
       (exampleEntry (Some [0x76, 0x32]) (Some [0x6D, 0x64]) False True True) \<or>
     isUpsertAndMetadataUpdate
       (exampleEntry (Some [0x76, 0x32]) (Some [0x6D, 0x64]) False True True)" ..
  note c = delete_and_complete_entries_skip_lookup [where txops = exampleTxOps and order = exampleOrder
      and ck = "exampleKey ''c''" and txht = None and pu = examplePrecedingUpdates
      and db = exampleDB,
      OF exampleTxOps_def example_rangeOrder example_entries(3) del']
  note d = delete_and_complete_entries_skip_lookup [where txops = exampleTxOps and order = exampleOrder
      and ck = "exampleKey ''d''" and txht = None and pu = examplePrecedingUpdates
      and db = exampleDB,
      OF exampleTxOps_def example_rangeOrder example_entries(4) both']
  from c d example_result example_rangeOrder example_entries(3,4) del both
  show ?thesis by blast
qed

text \<open>
  C7. When prepareTxOps succeeds, every entry of the map returned that is not a delete
  comes from a populated entry that is not a delete; its value is the value the
  transaction wrote or the value of the versioned value found for the key; its metadata
  is what the transaction set (bytes, or cleared), or the metadata of the versioned value
  found, or absent because no versioned value exists for the key.
\<close>

theorem output_entries_fully_resolved:
  assumes "txops = fst (applyTxRwset ser Map.empty rwset)"
    and "rangeOrder (order txops) txops"
    and "snd (prepareTxOps ser order rwset txht pu db) = Inr m"
    and "m ck = Some ko'" and "\<not> isDelete ko'"
  shows "\<exists>ko. txops ck = Some ko \<and> \<not> isDelete ko \<and>
           ((valueTouched ko \<and> value' ko' = value' ko) \<or>
            (\<exists>vv. foundIn pu db ck vv \<and> value' ko' = VValue vv)) \<and>
           (((metadataTouched ko \<or> metadataCleared ko) \<and> metadata ko' = metadata ko) \<or>
            (\<exists>vv. foundIn pu db ck vv \<and> metadata ko' = Metadata vv) \<or>
            (absentIn pu db ck \<and> metadata ko' = None))"
proof -
  from assms(3) have "snd (resolveLoop pu db (order txops) txops) = Inr m"
    by (simp add: prepareTxOps_eq [OF assms(1)])
  from resolveLoop_success [OF assms(2) this]
  have m: "m = resolveAll pu db txops" and nf: "failure pu db txops ck = None"
    by simp_all
  from assms(4) obtain ko where ko: "txops ck = Some ko"
    by (auto simp: m resolveAll_def split: option.splits)
  have pop: "populated ko"
    using applyTxRwset_populated [of ser rwset] assms(1) ko by (auto simp: allPopulated_def)
  show ?thesis
  proof (cases "needsLookup ko")
    case False
    from resolveAll_entry(2) [OF ko nf False] assms(4) have "ko' = ko"
      by (simp add: m)
    with False assms(5) ko show ?thesis
      by (auto simp: needsLookup_def isUpsertAndMetadataUpdate_def)
  next
    case True
    from resolveAll_entry(1) [OF ko nf True]
    obtain lv where lv: "latestState pu db ck = Inr lv"
      and r: "m ck = mergeEntry ko lv" by (auto simp: m)
    have nd: "\<not> isDelete ko"
      using True by (simp add: needsLookup_def)
    show ?thesis
    proof (cases lv)
      case None
      with lv have ab: "absentIn pu db ck" by (simp add: latestState_absent)
      from r None assms(4) have "isOnlyUpsert ko" and "ko' = ko"
        by (auto simp: mergeEntry_def split: if_splits)
      with pop ab ko nd show ?thesis
        by (auto simp: isOnlyUpsert_def populated_def)
    next
      case (Some vv)
      with lv have fo: "foundIn pu db ck vv" by (simp add: latestState_found)
      show ?thesis
      proof (cases "isOnlyUpsert ko")
        case True
        with r Some assms(4) have "ko' = ko\<lparr>metadata := Metadata vv\<rparr>"
          by (simp add: mergeEntry_def)
        with True fo ko nd show ?thesis
          by (auto simp: isOnlyUpsert_def)
      next
        case False
        with r Some assms(4) have k': "ko' = ko\<lparr>value' := VValue vv\<rparr>"
          by (simp add: mergeEntry_def)
        have "metadataTouched ko \<or> metadataCleared ko"
          using False \<open>needsLookup ko\<close> pop
          by (auto simp: isOnlyUpsert_def needsLookup_def isDelete_def populated_def
              isUpsertAndMetadataUpdate_def)
        with k' fo ko nd show ?thesis by auto
      qed
    qed
  qed
qed

theorem output_entries_fully_resolved_witness:
  "rangeOrder (exampleOrder exampleTxOps) exampleTxOps \<and>
   snd (prepareTxOps exampleCodec exampleOrder exampleRwset None examplePrecedingUpdates
     exampleDB) = Inr exampleResult \<and>
   exampleResult (exampleKey ''b'') =
     Some (exampleEntry (Some [0x76, 0x31]) (Some [0x6F, 0x78]) False True False) \<and>
   \<not> isDelete (exampleEntry (Some [0x76, 0x31]) (Some [0x6F, 0x78]) False True False) \<and>
   (\<exists>ko. exampleTxOps (exampleKey ''b'') = Some ko \<and> \<not> isDelete ko \<and>
      ((valueTouched ko \<and> Some [0x76, 0x31] = value' ko) \<or>
       (\<exists>vv. foundIn examplePrecedingUpdates exampleDB (exampleKey ''b'') vv \<and>
          Some [0x76, 0x31] = VValue vv)) \<and>
      (((metadataTouched ko \<or> metadataCleared ko) \<and> Some [0x6F, 0x78] = metadata ko) \<or>
       (\<exists>vv. foundIn examplePrecedingUpdates exampleDB (exampleKey ''b'') vv \<and>
          Some [0x6F, 0x78] = Metadata vv) \<or>
       (absentIn examplePrecedingUpdates exampleDB (exampleKey ''b'') \<and>
          Some [0x6F, 0x78] = None)))"
proof -
  have nd: "\<not> isDelete (exampleEntry (Some [0x76, 0x31]) (Some [0x6F, 0x78]) False True False)"
    by (simp add: isDelete_def exampleEntry_def)
  from output_entries_fully_resolved [where txops = exampleTxOps and order = exampleOrder and ck = "exampleKey ''b''",
      OF exampleTxOps_def example_rangeOrder example_result example_results(2) nd]
  have "\<exists>ko. exampleTxOps (exampleKey ''b'') = Some ko \<and> \<not> isDelete ko \<and>
      ((valueTouched ko \<and> Some [0x76, 0x31] = value' ko) \<or>
       (\<exists>vv. foundIn examplePrecedingUpdates exampleDB (exampleKey ''b'') vv \<and>
          Some [0x76, 0x31] = VValue vv)) \<and>
      (((metadataTouched ko \<or> metadataCleared ko) \<and> Some [0x6F, 0x78] = metadata ko) \<or>
       (\<exists>vv. foundIn examplePrecedingUpdates exampleDB (exampleKey ''b'') vv \<and>
          Some [0x6F, 0x78] = Metadata vv) \<or>
       (absentIn examplePrecedingUpdates exampleDB (exampleKey ''b'') \<and>
          Some [0x6F, 0x78] = None))"
    by (simp add: exampleEntry_def)
  with example_rangeOrder example_result example_results(2) nd
  show ?thesis by blast
qed

text \<open>
  C8. For one write set, one codec and one state of the lookup sources, any two orders
  in which the loop can visit the keys of the populated map give the same returned map
  (the nil map when the run fails).
\<close>

theorem prepareTxOps_order_independent:
  assumes "txops = fst (applyTxRwset ser Map.empty rwset)"
    and "rangeOrder (order1 txops) txops" and "rangeOrder (order2 txops) txops"
  shows "returnedMap (snd (prepareTxOps ser order1 rwset txht pu db)) =
         returnedMap (snd (prepareTxOps ser order2 rwset txht pu db))"
proof -
  have "firstFailure pu db txops (order1 txops) = None \<longleftrightarrow>
        firstFailure pu db txops (order2 txops) = None"
    using assms(2,3) by (simp add: firstFailure_None_iff rangeOrder_def)
  then show ?thesis
    by (auto simp: prepareTxOps_eq [OF assms(1)] resolveLoop_range [OF assms(2)]
        resolveLoop_range [OF assms(3)] returnedMap_def split: option.splits)
qed

theorem prepareTxOps_order_independent_witness:
  "rangeOrder (exampleOrder exampleTxOps) exampleTxOps \<and>
   rangeOrder (rev (exampleOrder exampleTxOps)) exampleTxOps \<and>
   returnedMap (snd (prepareTxOps exampleCodec exampleOrder exampleRwset None
     examplePrecedingUpdates exampleDB)) = Some exampleResult \<and>
   returnedMap (snd (prepareTxOps exampleCodec (\<lambda>t. rev (exampleOrder t)) exampleRwset None
     examplePrecedingUpdates exampleDB)) = Some exampleResult"
proof -
  have r: "rangeOrder (rev (exampleOrder exampleTxOps)) exampleTxOps"
    using example_rangeOrder by (simp add: rangeOrder_def)
  from prepareTxOps_order_independent [where txops = exampleTxOps and ?order1.0 = exampleOrder
      and ?order2.0 = "\<lambda>t. rev (exampleOrder t)" and txht = None
      and pu = examplePrecedingUpdates and db = exampleDB,
      OF exampleTxOps_def example_rangeOrder r]
  have "returnedMap (snd (prepareTxOps exampleCodec (\<lambda>t. rev (exampleOrder t)) exampleRwset
      None examplePrecedingUpdates exampleDB)) = Some exampleResult"
    by (simp add: example_result returnedMap_def)
  with example_rangeOrder r show ?thesis
    by (simp add: example_result returnedMap_def)
qed

text \<open>
  C9. A metadata-only entry for whose key a lookup source returns a versioned value
  with a nil value (the preceding updates, or the state database when the preceding
  updates report absence) is kept in the map returned, with a nil value: the entry is
  dropped only when no versioned value is returned at all.
\<close>

theorem metadata_only_entry_kept_with_nil_value:
  assumes "txops = fst (applyTxRwset ser Map.empty rwset)"
    and "rangeOrder (order txops) txops"
    and "txops ck = Some ko" and "isOnlyMetadata ko"
    and "foundIn pu db ck vv" and "VValue vv = None"
    and "snd (prepareTxOps ser order rwset txht pu db) = Inr m"
  shows "m ck = Some (ko\<lparr>value' := None\<rparr>)"
proof -
  from assms(7) have "snd (resolveLoop pu db (order txops) txops) = Inr m"
    by (simp add: prepareTxOps_eq [OF assms(1)])
  from resolveLoop_success [OF assms(2) this]
  have m: "m = resolveAll pu db txops" and nf: "failure pu db txops ck = None"
    by simp_all
  from isOnlyMetadata_branch [OF assms(4)]
  have need: "needsLookup ko" and nu: "\<not> isOnlyUpsert ko" by simp_all
  from resolveAll_entry(1) [OF assms(3) nf need]
  obtain lv where lv: "latestState pu db ck = Inr lv"
    and r: "m ck = mergeEntry ko lv" by (auto simp: m)
  from assms(5) have "latestState pu db ck = Inr (Some vv)"
    by (simp add: latestState_found)
  with lv have "lv = Some vv" by simp
  then show ?thesis
    using r nu assms(6) by (simp add: mergeEntry_def)
qed

theorem metadata_only_entry_kept_with_nil_value_witness:
  "rangeOrder (exampleOrder exampleTxOps) exampleTxOps \<and>
   exampleTxOps (exampleKey ''e'') =
     Some (exampleEntry None (Some [0x6D, 0x64]) False False True) \<and>
   isOnlyMetadata (exampleEntry None (Some [0x6D, 0x64]) False False True) \<and>
   foundIn examplePrecedingUpdates exampleDB (exampleKey ''e'')
     \<lparr>VValue = None, Metadata = None, Version = None\<rparr> \<and>
   VValue \<lparr>VValue = None, Metadata = None, Version = None\<rparr> = None \<and>
   snd (prepareTxOps exampleCodec exampleOrder exampleRwset None examplePrecedingUpdates
     exampleDB) = Inr exampleResult \<and>
   exampleResult (exampleKey ''e'') =
     Some (exampleEntry None (Some [0x6D, 0x64]) False False True)"
proof -
  have shape: "isOnlyMetadata (exampleEntry None (Some [0x6D, 0x64]) False False True)"
    by (simp add: isOnlyMetadata_def exampleEntry_def)
  have found: "foundIn examplePrecedingUpdates exampleDB (exampleKey ''e'')
     \<lparr>VValue = None, Metadata = None, Version = None\<rparr>"
    by (simp add: foundIn_def examplePrecedingUpdates_def exampleKey_def)
  have nil: "VValue \<lparr>VValue = None, Metadata = None, Version = None\<rparr> = None"
    by simp
  from metadata_only_entry_kept_with_nil_value [where txops = exampleTxOps and order = exampleOrder and ck = "exampleKey ''e''",
      OF exampleTxOps_def example_rangeOrder example_entries(5) shape found nil example_result]
  have e: "exampleResult (exampleKey ''e'') =
     Some (exampleEntry None (Some [0x6D, 0x64]) False False True)"
    by (simp add: exampleEntry_def)
  from example_rangeOrder example_entries(5) shape found example_result e
  show ?thesis by simp
qed

text \<open>
  C10. Every call of GetValueHash made by prepareTxOps, for a namespace and a
  collection, has as its argument the bytes of the key hash of a hashed write or hashed
  metadata write of that namespace and collection in the write set: converting the key
  hash to a string and back gives a non-nil slice of the same bytes.
\<close>

theorem getValueHash_queried_with_key_hash:
  assumes "txops = fst (applyTxRwset ser Map.empty rwset)"
    and "rangeOrder (order txops) txops"
    and "DBGetValueHash n c q \<in> set (fst (prepareTxOps ser order rwset txht pu db))"
  shows "\<exists>ck kh. hashedOrigin rwset ck kh \<and> ns ck = n \<and> coll ck = c \<and>
           bytes_of_string (string_of_bytes kh) = q \<and> q = Some (content kh)"
proof -
  have d: "distinct (order txops)"
    using assms(2) by (simp add: rangeOrder_def)
  from assms(3) have "DBGetValueHash n c q \<in> set (concat (map (callsFor pu db)
      (filter (lookedUp txops) (visited pu db txops (order txops)))))"
    by (simp add: prepareTxOps_eq [OF assms(1)] resolveLoop_fst [OF d])
  then obtain ck where l: "lookedUp txops ck"
    and x: "DBGetValueHash n c q \<in> set (callsFor pu db ck)"
    by auto
  from x have ck: "coll ck \<noteq> ''''" "ns ck = n" "coll ck = c" "q = bytes_of_string (key ck)"
    by (auto simp: callsFor_def retrieveLatestState_def split: if_splits option.splits)
  from l have "ck \<in> dom txops"
    by (auto simp: lookedUp_def split: option.splits)
  with applyTxRwset_private [of rwset ser] assms(1) ck(1)
  obtain kh where kh: "hashedOrigin rwset ck kh"
    by (auto simp: privateKeysFrom_def)
  then have "key ck = string_of_bytes kh"
    by (auto simp: hashedOrigin_def)
  with ck kh show ?thesis
    by (auto simp: bytes_roundtrip)
qed

theorem getValueHash_queried_with_key_hash_witness:
  "rangeOrder (exampleOrder exampleTxOps) exampleTxOps \<and>
   DBGetValueHash ''ns1'' ''coll1'' (Some [0x49])
     \<in> set (fst (prepareTxOps exampleCodec exampleOrder exampleRwset None
         examplePrecedingUpdates exampleDB)) \<and>
   (\<exists>ck kh. hashedOrigin exampleRwset ck kh \<and> ns ck = ''ns1'' \<and> coll ck = ''coll1'' \<and>
      bytes_of_string (string_of_bytes kh) = Some [0x49] \<and> Some [0x49] = Some (content kh))"
proof -
  have called: "DBGetValueHash ''ns1'' ''coll1'' (Some [0x49])
     \<in> set (fst (prepareTxOps exampleCodec exampleOrder exampleRwset None
         examplePrecedingUpdates exampleDB))"
    by (simp add: example_log exampleLog_def)
  from getValueHash_queried_with_key_hash [where txops = exampleTxOps and order = exampleOrder, OF exampleTxOps_def example_rangeOrder called]
    example_rangeOrder called
  show ?thesis by blast
qed

end
